theory Spec2Isabelle
  imports Main
begin

section \<open>Data model of the chat component (src/lib/main.tsx)\<close>

text \<open>
  The worker event \<^verbatim>\<open>MessageData\<close>. Every field is optional in the source; \<open>None\<close> is
  \<^verbatim>\<open>undefined\<close>. The status field is called \<open>messageStatus\<close>, the name the handler
  gives it when it destructures the event; the other fields carry the prefix \<open>msg_\<close>
  (\<open>file\<close> and \<open>output\<close> are reserved words, and \<^verbatim>\<open>tps\<close> and \<^verbatim>\<open>numTokens\<close> are also
  state cells of the component). Numbers carried by events (\<^verbatim>\<open>tps\<close>, \<^verbatim>\<open>numTokens\<close>,
  \<^verbatim>\<open>progress\<close>, \<^verbatim>\<open>total\<close>) are only stored and copied by the component, never computed
  on, so their type is the parameter \<open>'n\<close>.
\<close>

record 'n MessageData =
  messageStatus :: "string option"
  msg_data :: "string option"
  msg_file :: "string option"
  msg_output :: "string option"
  msg_tps :: "'n option"
  msg_numTokens :: "'n option"
  msg_state :: "string option"
  msg_progress :: "'n option"
  msg_total :: "'n option"

datatype Role = User | Assistant

record ChatMessage =
  role :: Role
  content :: string
  answerIndex :: "nat option"

text \<open>The commands the component posts to the worker (\<^verbatim>\<open>worker.current.postMessage\<close>).\<close>

datatype WorkerCommand =
    Check
  | Load
  | Generate "ChatMessage list"
  | Interrupt
  | Reset

text \<open>
  The component's state: the \<^verbatim>\<open>useState\<close> cells of \<^verbatim>\<open>LlamaReasoningReactComponent\<close>,
  whether \<^verbatim>\<open>worker.current\<close> holds a worker, and the commands posted so far, oldest first.
  React compares the dependencies of an effect by identity, and every \<^verbatim>\<open>setMessages\<close> call
  of the source stores a freshly built array; \<open>messagesRef\<close> is the identity of the array
  held in \<open>messages\<close>, a counter that each such call advances.
\<close>

record 'n Component =
  status :: "string option"
  error :: "string option"
  loadingMessage :: string
  progressItems :: "'n MessageData list"
  isRunning :: bool
  input :: string
  messages :: "ChatMessage list"
  messagesRef :: nat
  tps :: "'n option"
  numTokens :: "'n option"
  worker :: bool
  posted :: "WorkerCommand list"

text \<open>
  The state once the component is mounted: the initial values of the state cells, and the
  worker created by the mount effect, which posts the feature check.
\<close>

definition mounted :: "'n Component" where
  "mounted = \<lparr> status = None, error = None, loadingMessage = [], progressItems = [],
     isRunning = False, input = [], messages = [], messagesRef = 0, tps = None, numTokens = None,
     worker = True, posted = [Check] \<rparr>"

section \<open>Handlers\<close>

text \<open>\<^verbatim>\<open>setMessages\<close> with an updater: the new array replaces the old one.\<close>

definition setMessages ::
  "(ChatMessage list \<Rightarrow> ChatMessage list) \<Rightarrow> 'n Component \<Rightarrow> 'n Component" where
  "setMessages f s = s\<lparr> messages := f (messages s), messagesRef := Suc (messagesRef s) \<rparr>"

text \<open>\<^verbatim>\<open>onEnter(message)\<close>, lines 55 to 62.\<close>

definition onEnter :: "string \<Rightarrow> 'n Component \<Rightarrow> 'n Component" where
  "onEnter message s =
     (setMessages (\<lambda>prev. prev @ [\<lparr> role = User, content = message, answerIndex = None \<rparr>]) s)
       \<lparr> tps := None, isRunning := True, input := [] \<rparr>"

text \<open>\<^verbatim>\<open>onInterrupt()\<close>, lines 64 to 68.\<close>

definition onInterrupt :: "'n Component \<Rightarrow> 'n Component" where
  "onInterrupt s = (if worker s then s\<lparr> posted := posted s @ [Interrupt] \<rparr> else s)"

text \<open>
  The updater passed to \<^verbatim>\<open>setMessages\<close> in the \<^verbatim>\<open>"update"\<close> case, lines 152 to 167.
  \<^verbatim>\<open>cloned.at(-1)\<close> is \<^verbatim>\<open>undefined\<close> on an empty array, which the \<^verbatim>\<open>if (last)\<close> guard
  skips; \<^verbatim>\<open>output ?? ""\<close> reads a missing fragment as the empty string.
\<close>

definition appendToken :: "string option \<Rightarrow> string option \<Rightarrow> ChatMessage list \<Rightarrow> ChatMessage list" where
  "appendToken out st prev =
     (if prev = [] then prev
      else
        let lastm = last prev;
            newContent = content lastm @ (case out of None \<Rightarrow> [] | Some t \<Rightarrow> t);
            updated = lastm\<lparr> content := newContent \<rparr>;
            updated' = (if answerIndex updated = None \<and> st = Some ''answering''
                        then updated\<lparr> answerIndex := Some (length (content lastm)) \<rparr>
                        else updated)
        in prev[length prev - 1 := updated'])"

text \<open>
  \<^verbatim>\<open>onMessageReceived\<close>, lines 96 to 179: a \<^verbatim>\<open>switch\<close> on the status with no default
  branch, so a status that matches no case changes nothing.
\<close>

definition onMessageReceived :: "'n MessageData \<Rightarrow> 'n Component \<Rightarrow> 'n Component" where
  "onMessageReceived e s =
     (if messageStatus e = Some ''loading'' then
        (case msg_data e of
           Some d \<Rightarrow> s\<lparr> status := Some ''loading'', loadingMessage := d \<rparr>
         | None \<Rightarrow> s\<lparr> status := Some ''loading'' \<rparr>)
      else if messageStatus e = Some ''initiate'' then
        s\<lparr> progressItems := progressItems s @ [e] \<rparr>
      else if messageStatus e = Some ''progress'' then
        s\<lparr> progressItems :=
             map (\<lambda>item. if msg_file item = msg_file e
                         then item\<lparr> msg_progress := msg_progress e, msg_total := msg_total e \<rparr>
                         else item)
                 (progressItems s) \<rparr>
      else if messageStatus e = Some ''done'' then
        s\<lparr> progressItems := filter (\<lambda>item. msg_file item \<noteq> msg_file e) (progressItems s) \<rparr>
      else if messageStatus e = Some ''ready'' then
        s\<lparr> status := Some ''ready'' \<rparr>
      else if messageStatus e = Some ''start'' then
        setMessages (\<lambda>prev. prev @ [\<lparr> role = Assistant, content = [], answerIndex = None \<rparr>]) s
      else if messageStatus e = Some ''update'' then
        setMessages (appendToken (msg_output e) (msg_state e))
          (s\<lparr> tps := msg_tps e, numTokens := msg_numTokens e \<rparr>)
      else if messageStatus e = Some ''complete'' then
        s\<lparr> isRunning := False \<rparr>
      else if messageStatus e = Some ''error'' then
        (case msg_data e of Some d \<Rightarrow> s\<lparr> error := Some d \<rparr> | None \<Rightarrow> s)
      else s)"

text \<open>
  The effect of lines 199 to 211, with dependencies \<^verbatim>\<open>[messages, isRunning]\<close>.
  \<^verbatim>\<open>messages.at(-1)?.role\<close> is \<^verbatim>\<open>undefined\<close> on an empty array.
\<close>

definition generateEffect :: "'n Component \<Rightarrow> 'n Component" where
  "generateEffect s =
     (if length (filter (\<lambda>x. role x = User) (messages s)) = 0 then s
      else if (case messages s of [] \<Rightarrow> False | _ # _ \<Rightarrow> role (last (messages s)) = Assistant)
      then s
      else
        let s1 = s\<lparr> tps := None \<rparr>
        in if worker s1 then s1\<lparr> posted := posted s1 @ [Generate (messages s1)] \<rparr> else s1)"

text \<open>The \<^verbatim>\<open>onKeyDown\<close> handler of the text area, lines 379 to 389.\<close>

definition onKeyDown :: "string \<Rightarrow> bool \<Rightarrow> 'n Component \<Rightarrow> 'n Component" where
  "onKeyDown key shiftKey s =
     (if length (input s) > 0 \<and> \<not> isRunning s \<and> key = ''Enter'' \<and> \<not> shiftKey
      then onEnter (input s) s else s)"

text \<open>
  A click in the slot right of the text area, lines 392 to 408: the stop icon while
  running, the send arrow when there is input, an inert arrow otherwise.
\<close>

definition onSendSlotClick :: "'n Component \<Rightarrow> 'n Component" where
  "onSendSlotClick s =
     (if isRunning s then onInterrupt s
      else if length (input s) > 0 then onEnter (input s) s
      else s)"

text \<open>The \<^verbatim>\<open>onClick\<close> of the Reset link, lines 353 to 358.\<close>

definition onResetClick :: "'n Component \<Rightarrow> 'n Component" where
  "onResetClick s =
     (if worker s then setMessages (\<lambda>prev. []) (s\<lparr> posted := posted s @ [Reset] \<rparr>) else s)"

text \<open>The \<^verbatim>\<open>onClick\<close> of the Load button, lines 282 to 287.\<close>

definition onLoadClick :: "'n Component \<Rightarrow> 'n Component" where
  "onLoadClick s =
     (if worker s then s\<lparr> posted := posted s @ [Load], status := Some ''loading'' \<rparr> else s)"

section \<open>The component as a transition system\<close>

text \<open>
  What can happen to the mounted component: a message from the worker, a call of
  \<^verbatim>\<open>onEnter\<close> (a click on an example), a key in the text area, typing, and clicks on
  the send slot, the Reset link, the Load button. For Reset and Load the handler is
  modelled, not the condition under which the element is rendered.
\<close>

datatype 'n Action =
    WorkerMessage "'n MessageData"
  | Enter string
  | KeyDown string bool
  | InputChange string
  | SendSlotClick
  | ResetClick
  | LoadClick

definition handle :: "'n Action \<Rightarrow> 'n Component \<Rightarrow> 'n Component" where
  "handle a s =
     (case a of
        WorkerMessage e \<Rightarrow> onMessageReceived e s
      | Enter message \<Rightarrow> onEnter message s
      | KeyDown key shiftKey \<Rightarrow> onKeyDown key shiftKey s
      | InputChange v \<Rightarrow> s\<lparr> input := v \<rparr>
      | SendSlotClick \<Rightarrow> onSendSlotClick s
      | ResetClick \<Rightarrow> onResetClick s
      | LoadClick \<Rightarrow> onLoadClick s)"

text \<open>
  One step: the handler runs, the component renders, and the effect runs when one of
  its dependencies changed, \<^verbatim>\<open>messages\<close> by identity and \<^verbatim>\<open>isRunning\<close> by value.
\<close>

definition react :: "'n Action \<Rightarrow> 'n Component \<Rightarrow> 'n Component" where
  "react a s =
     (let s' = handle a s
      in if messagesRef s' \<noteq> messagesRef s \<or> isRunning s' \<noteq> isRunning s
         then generateEffect s' else s')"

fun run :: "'n Component \<Rightarrow> 'n Action list \<Rightarrow> 'n Component" where
  "run s [] = s"
| "run s (a # as) = run (react a s) as"

text \<open>Processing worker events only.\<close>

definition receive :: "'n Component \<Rightarrow> 'n MessageData list \<Rightarrow> 'n Component" where
  "receive s es = run s (map WorkerMessage es)"

text \<open>An event with only the given fields set.\<close>

definition event :: "string \<Rightarrow> 'n MessageData" where
  "event st = \<lparr> messageStatus = Some st, msg_data = None, msg_file = None, msg_output = None,
     msg_tps = None, msg_numTokens = None, msg_state = None, msg_progress = None,
     msg_total = None \<rparr>"

definition updateEvent :: "string \<Rightarrow> string \<Rightarrow> 'n MessageData" where
  "updateEvent out st = (event ''update'')\<lparr> msg_output := Some out, msg_state := Some st \<rparr>"

definition fileEvent :: "string \<Rightarrow> string \<Rightarrow> 'n MessageData" where
  "fileEvent st f = (event st)\<lparr> msg_file := Some f \<rparr>"

section \<open>The transcript with object identities\<close>

text \<open>
  The updaters above work on values. To speak about which turn objects an updater
  creates and which it shares, the same updaters are given on a store: \<open>heap\<close> holds
  every turn object allocated so far, at its address, and \<open>turns\<close> is the messages array,
  a list of addresses. An object literal or a spread \<^verbatim>\<open>{ ...last, ... }\<close> allocates at the
  next free address; the array itself is rebuilt by every updater.
\<close>

type_synonym ref = nat

record Transcript =
  heap :: "ChatMessage list"
  turns :: "ref list"

definition wellFormed :: "Transcript \<Rightarrow> bool" where
  "wellFormed t = list_all (\<lambda>r. r < length (heap t)) (turns t)"

text \<open>The turn sequence a store stands for.\<close>

definition view :: "Transcript \<Rightarrow> ChatMessage list" where
  "view t = map (\<lambda>r. heap t ! r) (turns t)"

text \<open>\<^verbatim>\<open>[...prev, { role: "user", content: message }]\<close>, line 57.\<close>

definition enterStore :: "string \<Rightarrow> Transcript \<Rightarrow> Transcript" where
  "enterStore message t =
     \<lparr> heap = heap t @ [\<lparr> role = User, content = message, answerIndex = None \<rparr>],
       turns = turns t @ [length (heap t)] \<rparr>"

text \<open>\<^verbatim>\<open>[...prev, { role: "assistant", content: "" }]\<close>, line 145.\<close>

definition startStore :: "Transcript \<Rightarrow> Transcript" where
  "startStore t =
     \<lparr> heap = heap t @ [\<lparr> role = Assistant, content = [], answerIndex = None \<rparr>],
       turns = turns t @ [length (heap t)] \<rparr>"

text \<open>
  The updater of lines 152 to 167: \<^verbatim>\<open>updated\<close> is allocated by the spread, the
  assignment to \<^verbatim>\<open>updated.answerIndex\<close> writes to that address, and the last slot of the
  cloned array is set to it.
\<close>

definition updateStore :: "string option \<Rightarrow> string option \<Rightarrow> Transcript \<Rightarrow> Transcript" where
  "updateStore out st t =
     (if turns t = [] then t
      else
        let lastm = heap t ! last (turns t);
            newContent = content lastm @ (case out of None \<Rightarrow> [] | Some x \<Rightarrow> x);
            updated = length (heap t);
            h1 = heap t @ [lastm\<lparr> content := newContent \<rparr>];
            h2 = (if answerIndex (h1 ! updated) = None \<and> st = Some ''answering''
                  then h1[updated := (h1 ! updated)\<lparr> answerIndex := Some (length (content lastm)) \<rparr>]
                  else h1)
        in \<lparr> heap = h2, turns = (turns t)[length (turns t) - 1 := updated] \<rparr>)"

text \<open>\<^verbatim>\<open>setMessages([])\<close>, line 356.\<close>

definition resetStore :: "Transcript \<Rightarrow> Transcript" where
  "resetStore t = \<lparr> heap = heap t, turns = [] \<rparr>"

section \<open>Size formatting (src/lib/Progress.tsx)\<close>














section \<open>Auxiliary definitions for the statements\<close>

text \<open>The events that write the phase.\<close>

definition phaseEvents :: "'n MessageData list \<Rightarrow> 'n MessageData list" where
  "phaseEvents es =
     filter (\<lambda>e. messageStatus e = Some ''loading'' \<or> messageStatus e = Some ''ready'') es"

text \<open>
  Every \<^verbatim>\<open>"initiate"\<close> event of the sequence names a file that is not tracked when the
  event arrives.
\<close>

fun freshInitiates :: "'n Component \<Rightarrow> 'n MessageData list \<Rightarrow> bool" where
  "freshInitiates s [] = True"
| "freshInitiates s (e # es) =
     ((messageStatus e = Some ''initiate'' \<longrightarrow> msg_file e \<notin> set (map msg_file (progressItems s)))
      \<and> freshInitiates (react (WorkerMessage e) s) es)"

text \<open>An \<^verbatim>\<open>"update"\<close> event sent while the worker reports the answering phase.\<close>

definition answering :: "'n MessageData \<Rightarrow> bool" where
  "answering e = (messageStatus e = Some ''update'' \<and> msg_state e = Some ''answering'')"

text \<open>The statuses that \<^verbatim>\<open>onMessageReceived\<close> has a case for.\<close>

definition knownStatuses :: "string list" where
  "knownStatuses = [''loading'', ''initiate'', ''progress'', ''done'', ''ready'', ''start'',
     ''update'', ''complete'', ''error'']"

text \<open>The three example questions, lines 25 to 29; a click on one calls \<^verbatim>\<open>onEnter\<close> with it.\<close>

definition EXAMPLES :: "string list" where
  "EXAMPLES =
     [''Solve the equation x^2 - 3x + 2 = 0'',
      ''Lily is three times older than her son. In 15 years, she will be twice as old as him. How old is she now?'',
      ''Write python code to compute the nth fibonacci number.'']"

text \<open>The component once the model is loaded: the text area is enabled.\<close>

definition readyState :: "nat Component" where
  "readyState = receive mounted [event ''loading'', event ''ready'']"

text \<open>
  One exchange, for the examples: a question, then the worker's events for the reply,
  the last update carrying the metrics.
\<close>

definition oneExchange :: "nat Action list" where
  "oneExchange =
     [Enter ''q'', WorkerMessage (event ''start''),
      WorkerMessage (updateEvent ''Hi'' ''thinking''),
      WorkerMessage ((updateEvent '' there'' ''answering'')\<lparr> msg_tps := Some 5, msg_numTokens := Some 2 \<rparr>),
      WorkerMessage (event ''complete'')]"

text \<open>A reply in its thinking part: the last turn is an assistant turn without an answer index.\<close>

definition thinkingTurn :: "ChatMessage list \<Rightarrow> bool" where
  "thinkingTurn ms = (ms \<noteq> [] \<and> role (last ms) = Assistant \<and> answerIndex (last ms) = None)"

text \<open>
  The worker's events for one reply: the reply begins, a fragment while thinking, a
  fragment while answering, the end.
\<close>

definition exampleReply :: "nat MessageData list" where
  "exampleReply =
     [event ''start'', updateEvent ''Hi'' ''thinking'', updateEvent '' there'' ''answering'',
      event ''complete'']"

text \<open>A store for the examples: the question \<open>q\<close> and the empty turn of the reply.\<close>

definition exampleStore :: Transcript where
  "exampleStore = startStore (enterStore ''q'' \<lparr> heap = [], turns = [] \<rparr>)"

section \<open>Lemmas\<close>

subsection \<open>What a step changes\<close>

lemma generateEffect_frame:
  "messages (generateEffect s) = messages s"
  "messagesRef (generateEffect s) = messagesRef s"
  "isRunning (generateEffect s) = isRunning s"
  "status (generateEffect s) = status s"
  "error (generateEffect s) = error s"
  "loadingMessage (generateEffect s) = loadingMessage s"
  "progressItems (generateEffect s) = progressItems s"
  "input (generateEffect s) = input s"
  "numTokens (generateEffect s) = numTokens s"
  "worker (generateEffect s) = worker s"
  by (simp_all add: generateEffect_def Let_def)

lemma messages_react_worker:
  "messages (react (WorkerMessage e) s) =
     (if messageStatus e = Some ''start''
      then messages s @ [\<lparr> role = Assistant, content = [], answerIndex = None \<rparr>]
      else if messageStatus e = Some ''update''
      then appendToken (msg_output e) (msg_state e) (messages s)
      else messages s)"
  by (simp add: react_def handle_def onMessageReceived_def setMessages_def Let_def
      generateEffect_frame split: option.split)

lemma status_react_worker:
  "status (react (WorkerMessage e) s) =
     (if messageStatus e = Some ''loading'' \<or> messageStatus e = Some ''ready''
      then messageStatus e else status s)"
  by (auto simp add: react_def handle_def onMessageReceived_def setMessages_def Let_def
      generateEffect_frame split: option.split)

lemma progressItems_react_worker:
  "progressItems (react (WorkerMessage e) s) =
     (if messageStatus e = Some ''initiate'' then progressItems s @ [e]
      else if messageStatus e = Some ''progress'' then
        map (\<lambda>item. if msg_file item = msg_file e
                    then item\<lparr> msg_progress := msg_progress e, msg_total := msg_total e \<rparr>
                    else item) (progressItems s)
      else if messageStatus e = Some ''done'' then
        filter (\<lambda>item. msg_file item \<noteq> msg_file e) (progressItems s)
      else progressItems s)"
  by (simp add: react_def handle_def onMessageReceived_def setMessages_def Let_def
      generateEffect_frame split: option.split)

lemma receive_Nil: "receive s [] = s"
  by (simp add: receive_def)

lemma receive_Cons: "receive s (e # es) = receive (react (WorkerMessage e) s) es"
  by (simp add: receive_def)

lemma run_append: "run s (as @ bs) = run (run s as) bs"
  by (induction as arbitrary: s) simp_all

lemma receive_append: "receive s (es @ fs) = receive (receive s es) fs"
  by (simp add: receive_def run_append)

subsection \<open>Phase and progress items\<close>

lemma status_receive:
  "status (receive s es) =
     (if phaseEvents es = [] then status s else messageStatus (last (phaseEvents es)))"
proof (induction es arbitrary: s)
  case Nil
  show ?case by (simp add: receive_Nil phaseEvents_def)
next
  case (Cons e es)
  show ?case
    using Cons.IH [of "react (WorkerMessage e) s"]
    by (simp add: receive_Cons phaseEvents_def status_react_worker)
qed

lemma status_receive_set:
  "status s \<noteq> None \<Longrightarrow> status (receive s es) \<noteq> None"
proof (induction es arbitrary: s)
  case Nil
  then show ?case by (simp add: receive_Nil)
next
  case (Cons e es)
  from Cons.prems have "status (react (WorkerMessage e) s) \<noteq> None"
    by (auto simp add: status_react_worker)
  then show ?case by (simp add: receive_Cons Cons.IH)
qed

lemma distinct_files_step:
  assumes "distinct (map msg_file (progressItems s))"
    and "messageStatus e = Some ''initiate'' \<longrightarrow> msg_file e \<notin> set (map msg_file (progressItems s))"
  shows "distinct (map msg_file (progressItems (react (WorkerMessage e) s)))"
proof -
  have m: "msg_file \<circ> (\<lambda>item. if msg_file item = msg_file e
                    then item\<lparr> msg_progress := msg_progress e, msg_total := msg_total e \<rparr>
                    else item) = msg_file"
    by (simp add: fun_eq_iff)
  show ?thesis
    using assms by (simp add: progressItems_react_worker m distinct_map_filter)
qed

lemma unknown_status_ignored:
  assumes "messageStatus e \<notin> Some ` set knownStatuses"
  shows "react (WorkerMessage e) s = s"
  using assms
  by (simp add: knownStatuses_def react_def handle_def onMessageReceived_def)

lemma untracked_file_ignored:
  assumes "messageStatus e = Some ''progress'' \<or> messageStatus e = Some ''done''"
    and "msg_file e \<notin> msg_file ` set (progressItems s)"
  shows "react (WorkerMessage e) s = s"
proof -
  have ne: "msg_file x \<noteq> msg_file e" if "x \<in> set (progressItems s)" for x
    using that assms(2) by (metis imageI)
  have m: "map (\<lambda>item. if msg_file item = msg_file e
                    then item\<lparr> msg_progress := msg_progress e, msg_total := msg_total e \<rparr>
                    else item) (progressItems s) = progressItems s"
    by (intro map_idI) (simp add: ne)
  have f: "filter (\<lambda>item. msg_file item \<noteq> msg_file e) (progressItems s) = progressItems s"
    by (intro filter_True) (simp add: ne)
  show ?thesis
    using assms(1) by (auto simp add: react_def handle_def onMessageReceived_def m f)
qed

lemma done_then_progress_absent:
  assumes "messageStatus d = Some ''done''" and "messageStatus p = Some ''progress''"
    and "msg_file p = msg_file d"
  shows "msg_file d \<notin> msg_file ` set (progressItems (receive s [d, p]))"
  using assms
  by (auto simp add: receive_Cons receive_Nil progressItems_react_worker)

subsection \<open>The transcript under worker events\<close>

lemma appendToken_Nil: "appendToken out st [] = []"
  by (simp add: appendToken_def)

lemma appendToken_snoc:
  "appendToken out st (xs @ [x]) =
     xs @ [x\<lparr> content := content x @ (case out of None \<Rightarrow> [] | Some t \<Rightarrow> t),
              answerIndex := (if answerIndex x = None \<and> st = Some ''answering''
                              then Some (length (content x)) else answerIndex x) \<rparr>]"
  by (simp add: appendToken_def Let_def)

lemma length_appendToken: "length (appendToken out st xs) = length xs"
  by (simp add: appendToken_def Let_def)

lemma length_messages_react:
  "length (messages (react (WorkerMessage e) s)) =
     (if messageStatus e = Some ''start'' then Suc (length (messages s)) else length (messages s))"
  by (simp add: messages_react_worker length_appendToken)

lemma length_messages_receive_le:
  "length (messages s) \<le> length (messages (receive s es))"
proof (induction es arbitrary: s)
  case Nil
  show ?case by (simp add: receive_Nil)
next
  case (Cons e es)
  have "length (messages s) \<le> length (messages (react (WorkerMessage e) s))"
    by (simp add: length_messages_react)
  also have "\<dots> \<le> length (messages (receive (react (WorkerMessage e) s) es))"
    by (rule Cons.IH)
  finally show ?case by (simp add: receive_Cons)
qed

lemma length_messages_receive_no_start:
  assumes "\<forall>e\<in>set es. messageStatus e \<noteq> Some ''start''"
  shows "length (messages (receive s es)) = length (messages s)"
  using assms
proof (induction es arbitrary: s)
  case Nil
  show ?case by (simp add: receive_Nil)
next
  case (Cons e es)
  then show ?case by (simp add: receive_Cons length_messages_react)
qed

lemma thinkingTurn_step:
  assumes "\<not> answering e"
    and "thinkingTurn (messages s) \<or> messageStatus e = Some ''start''"
  shows "thinkingTurn (messages (react (WorkerMessage e) s))"
proof (cases "messageStatus e = Some ''start''")
  case True
  then show ?thesis by (simp add: messages_react_worker thinkingTurn_def)
next
  case False
  with assms(2) have t: "thinkingTurn (messages s)" by simp
  then obtain xs x where ms: "messages s = xs @ [x]"
    by (cases "messages s" rule: rev_cases) (simp_all add: thinkingTurn_def)
  with t assms(1) False show ?thesis
    by (simp add: messages_react_worker thinkingTurn_def appendToken_snoc answering_def)
qed

lemma thinkingTurn_receive:
  assumes "\<forall>e\<in>set es. \<not> answering e"
    and "thinkingTurn (messages s) \<or> (\<exists>e\<in>set es. messageStatus e = Some ''start'')"
  shows "thinkingTurn (messages (receive s es))"
  using assms
proof (induction es rule: rev_induct)
  case Nil
  then show ?case by (simp add: receive_Nil)
next
  case (snoc e es)
  have step: "receive s (es @ [e]) = react (WorkerMessage e) (receive s es)"
    by (simp add: receive_append receive_Cons receive_Nil)
  from snoc.prems(1) have ne: "\<not> answering e" and nes: "\<forall>e\<in>set es. \<not> answering e"
    by simp_all
  show ?case
  proof (cases "messageStatus e = Some ''start''")
    case True
    with ne show ?thesis unfolding step by (intro thinkingTurn_step) simp_all
  next
    case False
    with snoc.prems(2) have "thinkingTurn (messages s) \<or> (\<exists>e\<in>set es. messageStatus e = Some ''start'')"
      by auto
    with nes have "thinkingTurn (messages (receive s es))" by (rule snoc.IH)
    with ne show ?thesis unfolding step by (intro thinkingTurn_step) simp_all
  qed
qed

lemma answerIndex_kept_step:
  assumes "i < length (messages s)" and "answerIndex (messages s ! i) = Some v"
  shows "answerIndex (messages (react (WorkerMessage e) s) ! i) = Some v"
proof -
  from assms(1) obtain xs x where ms: "messages s = xs @ [x]"
    by (cases "messages s" rule: rev_cases) simp_all
  show ?thesis
  proof (cases "i < length xs")
    case True
    with ms assms(2) show ?thesis
      by (simp add: messages_react_worker appendToken_snoc nth_append)
  next
    case False
    with assms(1) ms have "i = length xs" by simp
    with ms assms(2) show ?thesis
      by (simp add: messages_react_worker appendToken_snoc nth_append)
  qed
qed

lemma answerIndex_kept:
  assumes "i < length (messages s)" and "answerIndex (messages s ! i) = Some v"
  shows "answerIndex (messages (receive s es) ! i) = Some v"
  using assms
proof (induction es arbitrary: s)
  case Nil
  then show ?case by (simp add: receive_Nil)
next
  case (Cons e es)
  have "i < length (messages (react (WorkerMessage e) s))"
    using Cons.prems(1) by (simp add: length_messages_react)
  moreover have "answerIndex (messages (react (WorkerMessage e) s) ! i) = Some v"
    using Cons.prems by (rule answerIndex_kept_step)
  ultimately show ?case
    by (simp add: receive_Cons Cons.IH)
qed

lemma answering_step:
  assumes "answering e" and "thinkingTurn (messages s)"
  shows "answerIndex (messages (react (WorkerMessage e) s) ! (length (messages s) - 1))
           = Some (length (content (last (messages s))))"
proof -
  from assms(2) obtain xs x where ms: "messages s = xs @ [x]"
    by (cases "messages s" rule: rev_cases) (simp_all add: thinkingTurn_def)
  with assms show ?thesis
    by (simp add: messages_react_worker appendToken_snoc answering_def thinkingTurn_def)
qed

subsection \<open>The effect\<close>

lemma posted_onMessageReceived: "posted (onMessageReceived e s) = posted s"
  by (simp add: onMessageReceived_def setMessages_def split: option.split)

lemma messages_onMessageReceived:
  "messages (onMessageReceived e s) = messages (react (WorkerMessage e) s)"
  by (simp add: react_def handle_def Let_def generateEffect_frame)

lemma generateEffect_alt:
  "generateEffect s =
     (if filter (\<lambda>x. role x = User) (messages s) = [] then s
      else if messages s \<noteq> [] \<and> role (last (messages s)) = Assistant then s
      else if worker s then s\<lparr> tps := None, posted := posted s @ [Generate (messages s)] \<rparr>
      else s\<lparr> tps := None \<rparr>)"
  by (cases "messages s") (simp_all add: generateEffect_def Let_def)

lemma generateEffect_assistant:
  assumes "messages s \<noteq> []" and "role (last (messages s)) = Assistant"
  shows "generateEffect s = s"
  using assms by (simp add: generateEffect_alt)

lemma assistant_last_step:
  assumes "messages s \<noteq> []" and "role (last (messages s)) = Assistant"
  shows "messages (react (WorkerMessage e) s) \<noteq> [] \<and>
         role (last (messages (react (WorkerMessage e) s))) = Assistant"
proof -
  from assms(1) obtain xs x where ms: "messages s = xs @ [x]"
    by (cases "messages s" rule: rev_cases) simp_all
  with assms(2) show ?thesis
    by (simp add: messages_react_worker appendToken_snoc)
qed

lemma no_generate_step:
  assumes "messages s \<noteq> []" and "role (last (messages s)) = Assistant"
  shows "posted (react (WorkerMessage e) s) = posted s"
proof -
  let ?s' = "onMessageReceived e s"
  from assistant_last_step [OF assms, of e]
  have "messages ?s' \<noteq> []" "role (last (messages ?s')) = Assistant"
    by (simp_all add: messages_onMessageReceived)
  then have "generateEffect ?s' = ?s'"
    by (rule generateEffect_assistant)
  then show ?thesis
    by (simp add: react_def handle_def Let_def posted_onMessageReceived)
qed

lemma no_generate_receive:
  assumes "messages s \<noteq> []" and "role (last (messages s)) = Assistant"
  shows "posted (receive s es) = posted s"
  using assms
proof (induction es arbitrary: s)
  case Nil
  show ?case by (simp add: receive_Nil)
next
  case (Cons e es)
  from assistant_last_step [OF Cons.prems, of e]
  have "posted (receive (react (WorkerMessage e) s) es) = posted (react (WorkerMessage e) s)"
    by (intro Cons.IH) simp_all
  with no_generate_step [OF Cons.prems, of e] show ?case
    by (simp add: receive_Cons)
qed

lemma enter_posts_generate:
  assumes "worker s"
  shows "posted (react (Enter text) s)
           = posted s @ [Generate (messages s @ [\<lparr> role = User, content = text, answerIndex = None \<rparr>])]"
    and "messages (react (Enter text) s)
           = messages s @ [\<lparr> role = User, content = text, answerIndex = None \<rparr>]"
  using assms
  by (simp_all add: react_def handle_def onEnter_def setMessages_def generateEffect_alt Let_def)

lemma quiet_event_step:
  assumes "messageStatus e \<noteq> Some ''start''" and "messageStatus e \<noteq> Some ''update''"
    and "messageStatus e \<noteq> Some ''complete''"
  shows "posted (react (WorkerMessage e) s) = posted s \<and>
         messages (react (WorkerMessage e) s) = messages s"
  using assms
  by (simp add: react_def handle_def onMessageReceived_def Let_def split: option.split)

lemma quiet_events_receive:
  assumes "\<forall>e\<in>set es. messageStatus e \<noteq> Some ''start'' \<and> messageStatus e \<noteq> Some ''update'' \<and>
             messageStatus e \<noteq> Some ''complete''"
  shows "posted (receive s es) = posted s \<and> messages (receive s es) = messages s"
  using assms
proof (induction es arbitrary: s)
  case Nil
  show ?case by (simp add: receive_Nil)
next
  case (Cons e es)
  then show ?case
    using quiet_event_step [of e s] by (simp add: receive_Cons)
qed

lemma start_after_user_turn:
  assumes "messageStatus st = Some ''start''"
  shows "posted (react (WorkerMessage st) s) = posted s"
    and "messages (react (WorkerMessage st) s) \<noteq> []"
    and "role (last (messages (react (WorkerMessage st) s))) = Assistant"
  using assms
  by (simp_all add: react_def handle_def onMessageReceived_def setMessages_def generateEffect_alt
      Let_def)

lemma one_generate_per_cycle:
  assumes w: "worker s"
    and q: "\<forall>e\<in>set es1. messageStatus e \<noteq> Some ''start'' \<and> messageStatus e \<noteq> Some ''update'' \<and>
             messageStatus e \<noteq> Some ''complete''"
    and st: "messageStatus st = Some ''start''"
  shows "posted (receive (react (Enter text) s) (es1 @ st # es2))
           = posted s @ [Generate (messages s @ [\<lparr> role = User, content = text, answerIndex = None \<rparr>])]"
proof -
  let ?s1 = "react (Enter text) s"
  let ?s2 = "receive ?s1 es1"
  let ?s3 = "react (WorkerMessage st) ?s2"
  have "receive ?s1 (es1 @ st # es2) = receive ?s3 es2"
    by (simp add: receive_append receive_Cons)
  moreover have "posted (receive ?s3 es2) = posted ?s3"
    using start_after_user_turn(2,3) [OF st, of ?s2] by (rule no_generate_receive)
  moreover have "posted ?s3 = posted ?s2"
    using st by (rule start_after_user_turn(1))
  moreover have "posted ?s2 = posted ?s1"
    using quiet_events_receive [OF q, of ?s1] by simp
  ultimately show ?thesis
    by (simp add: enter_posts_generate(1) [OF w])
qed

lemma generateEffect_posted:
  "posted (generateEffect s) =
     (if worker s \<and> (\<exists>m\<in>set (messages s). role m = User) \<and> role (last (messages s)) = User
      then posted s @ [Generate (messages s)] else posted s)"
proof -
  have "(filter (\<lambda>x. role x = User) (messages s) = []) = (\<not> (\<exists>m\<in>set (messages s). role m = User))"
    by (simp add: filter_empty_conv)
  moreover have "(role (last (messages s)) = Assistant) = (role (last (messages s)) \<noteq> User)"
    by (cases "role (last (messages s))") simp_all
  moreover have "(\<exists>m\<in>set (messages s). role m = User) \<Longrightarrow> messages s \<noteq> []"
    by auto
  ultimately show ?thesis
    by (auto simp add: generateEffect_alt)
qed

lemma running_blocks_submit:
  assumes "isRunning s"
  shows "react (KeyDown key shiftKey) s = s"
    and "posted (react SendSlotClick s) = posted s @ (if worker s then [Interrupt] else [])"
    and "messages (react SendSlotClick s) = messages s"
  using assms
  by (simp_all add: react_def handle_def onKeyDown_def onSendSlotClick_def onInterrupt_def Let_def)

subsection \<open>The store\<close>

lemma wellFormed_nth: "wellFormed t \<Longrightarrow> r \<in> set (turns t) \<Longrightarrow> r < length (heap t)"
  by (simp add: wellFormed_def list_all_iff)

lemma updateStore_heap:
  "turns t \<noteq> [] \<Longrightarrow>
   heap (updateStore out st t) =
     heap t @ [(heap t ! last (turns t))\<lparr>
        content := content (heap t ! last (turns t)) @ (case out of None \<Rightarrow> [] | Some x \<Rightarrow> x),
        answerIndex := (if answerIndex (heap t ! last (turns t)) = None \<and> st = Some ''answering''
                        then Some (length (content (heap t ! last (turns t))))
                        else answerIndex (heap t ! last (turns t))) \<rparr>]"
  by (simp add: updateStore_def Let_def)

lemma updateStore_turns:
  "turns t \<noteq> [] \<Longrightarrow> turns (updateStore out st t) = butlast (turns t) @ [length (heap t)]"
  by (cases "turns t" rule: rev_cases) (simp_all add: updateStore_def Let_def)

lemma updateStore_empty: "turns t = [] \<Longrightarrow> updateStore out st t = t"
  by (simp add: updateStore_def)

lemma view_grown:
  assumes "wellFormed t"
  shows "map (\<lambda>r. (heap t @ hs) ! r) (turns t) = view t"
  using wellFormed_nth [OF assms] by (simp add: view_def nth_append)

lemma updateStore_view:
  assumes "wellFormed t"
  shows "view (updateStore out st t) = appendToken out st (view t)"
proof (cases "turns t" rule: rev_cases)
  case Nil
  then show ?thesis by (simp add: updateStore_empty view_def appendToken_Nil)
next
  case (snoc rs r)
  then have ne: "turns t \<noteq> []" by simp
  from assms snoc have r: "r < length (heap t)" and rs: "\<forall>x\<in>set rs. x < length (heap t)"
    by (simp_all add: wellFormed_def list_all_iff)
  have "view t = map (\<lambda>x. heap t ! x) rs @ [heap t ! r]"
    by (simp add: view_def snoc)
  moreover have "map (\<lambda>x. (heap t @ hs) ! x) rs = map (\<lambda>x. heap t ! x) rs" for hs
    using rs by (simp add: nth_append)
  ultimately show ?thesis
    by (simp add: view_def updateStore_heap [OF ne] updateStore_turns [OF ne] snoc
        appendToken_snoc)
qed

lemma updateStore_wellFormed:
  assumes "wellFormed t"
  shows "wellFormed (updateStore out st t)"
proof (cases "turns t = []")
  case True
  with assms show ?thesis by (simp add: updateStore_empty)
next
  case False
  have "\<forall>r\<in>set (butlast (turns t)). r < length (heap t)"
    using assms by (auto simp add: wellFormed_def list_all_iff dest: in_set_butlastD)
  then show ?thesis
    by (auto simp add: wellFormed_def list_all_iff updateStore_heap [OF False] updateStore_turns [OF False])
qed

lemma next_address_unused:
  assumes "wellFormed t"
  shows "length (heap t) \<notin> set (turns t)"
  using wellFormed_nth [OF assms, of "length (heap t)"] by auto

lemma appendStores_view:
  assumes "wellFormed t"
  shows "view (startStore t) = view t @ [\<lparr> role = Assistant, content = [], answerIndex = None \<rparr>]"
    and "view (enterStore message t) = view t @ [\<lparr> role = User, content = message, answerIndex = None \<rparr>]"
    and "wellFormed (startStore t)" and "wellFormed (enterStore message t)"
  using view_grown [OF assms] wellFormed_nth [OF assms]
  by (auto simp add: startStore_def enterStore_def view_def wellFormed_def list_all_iff
      intro: less_SucI)

subsection \<open>Size formatting\<close>



















section \<open>The progress tracker\<close>

text \<open>
  Claim C2, as amended. The tracker holds at most one item per file as long as every
  \<^verbatim>\<open>"initiate"\<close> event names a file that is not tracked when it arrives: from a state
  whose items have pairwise different files, any such sequence of worker events leads to
  a state whose items have pairwise different files. (\<^verbatim>\<open>"progress"\<close> keeps the files of
  the items, \<^verbatim>\<open>"done"\<close> removes items, \<^verbatim>\<open>"initiate"\<close> appends its event without looking
  for the file among the items.)
\<close>

theorem tracked_files_distinct:
  assumes "distinct (map msg_file (progressItems s))" and "freshInitiates s es"
  shows "distinct (map msg_file (progressItems (receive s es)))"
  using assms
proof (induction es arbitrary: s)
  case Nil
  then show ?case by (simp add: receive_Nil)
next
  case (Cons e es)
  from Cons.prems have "distinct (map msg_file (progressItems (react (WorkerMessage e) s)))"
    by (intro distinct_files_step) simp_all
  with Cons.prems Cons.IH show ?case
    by (simp add: receive_Cons)
qed

text \<open>
  The theorem at a download of two files, the first of them started again after it was
  done.
\<close>

theorem tracked_files_distinct_witness:
  "distinct (map msg_file (progressItems (receive (mounted :: nat Component)
      [fileEvent ''initiate'' ''a'', fileEvent ''initiate'' ''b'',
       (fileEvent ''progress'' ''a'')\<lparr> msg_progress := Some 50, msg_total := Some 1536 \<rparr>,
       fileEvent ''done'' ''a'', fileEvent ''initiate'' ''a''])))"
proof -
  have d: "distinct (map msg_file (progressItems (mounted :: nat Component)))"
    by (simp add: mounted_def)
  have f: "freshInitiates (mounted :: nat Component)
      [fileEvent ''initiate'' ''a'', fileEvent ''initiate'' ''b'',
       (fileEvent ''progress'' ''a'')\<lparr> msg_progress := Some 50, msg_total := Some 1536 \<rparr>,
       fileEvent ''done'' ''a'', fileEvent ''initiate'' ''a'']"
    by code_simp
  show ?thesis
    by (rule tracked_files_distinct [OF d f])
qed

text \<open>
  Claim C2 as stated fails: two \<^verbatim>\<open>"initiate"\<close> events for the file \<open>a\<close> leave two items
  for \<open>a\<close> in the tracker.
\<close>

theorem duplicate_initiate_counterexample:
  "map msg_file (progressItems (receive (mounted :: nat Component)
      [fileEvent ''initiate'' ''a'', fileEvent ''initiate'' ''a''])) = [Some ''a'', Some ''a'']"
  by code_simp

text \<open>
  Claim C7. A worker event whose status is none of the nine the handler knows (a missing
  status included) leaves the whole state as it was; so does a \<^verbatim>\<open>"progress"\<close> or \<^verbatim>\<open>"done"\<close>
  event whose file no tracked item has; and after a \<^verbatim>\<open>"done"\<close> event followed by a
  \<^verbatim>\<open>"progress"\<close> event for the same file, no item for that file is tracked. The handler
  is a total function of the event and the state: no branch of it raises.
\<close>

theorem ignored_events_change_nothing:
  "(messageStatus u \<notin> Some ` set knownStatuses \<longrightarrow> react (WorkerMessage u) s = s) \<and>
   ((messageStatus e = Some ''progress'' \<or> messageStatus e = Some ''done'') \<and>
      msg_file e \<notin> msg_file ` set (progressItems s) \<longrightarrow> react (WorkerMessage e) s = s) \<and>
   (messageStatus d = Some ''done'' \<and> messageStatus p = Some ''progress'' \<and> msg_file p = msg_file d
      \<longrightarrow> msg_file d \<notin> msg_file ` set (progressItems (receive s [d, p])))"
  using unknown_status_ignored [of u s] untracked_file_ignored [of e s]
    done_then_progress_absent [of d p s]
  by blast

text \<open>
  The theorem while the file \<open>a\<close> is being downloaded: an event of status \<open>later\<close>, an
  event without a status and a progress event for the file \<open>b\<close> change nothing, and \<open>a\<close>
  is gone after its \<^verbatim>\<open>"done"\<close> and a late \<^verbatim>\<open>"progress"\<close>.
\<close>

theorem ignored_events_change_nothing_witness:
  "react (WorkerMessage (event ''later''))
      (receive (mounted :: nat Component) [fileEvent ''initiate'' ''a''])
     = receive mounted [fileEvent ''initiate'' ''a''] \<and>
   react (WorkerMessage ((event ''x'')\<lparr> messageStatus := None \<rparr>))
      (receive (mounted :: nat Component) [fileEvent ''initiate'' ''a''])
     = receive mounted [fileEvent ''initiate'' ''a''] \<and>
   react (WorkerMessage (fileEvent ''progress'' ''b''))
      (receive (mounted :: nat Component) [fileEvent ''initiate'' ''a''])
     = receive mounted [fileEvent ''initiate'' ''a''] \<and>
   Some ''a'' \<notin> msg_file ` set (progressItems
      (receive (receive (mounted :: nat Component) [fileEvent ''initiate'' ''a''])
         [fileEvent ''done'' ''a'', fileEvent ''progress'' ''a'']))"
proof -
  let ?s = "receive (mounted :: nat Component) [fileEvent ''initiate'' ''a'']"
  have u1: "messageStatus (event ''later'' :: nat MessageData) \<notin> Some ` set knownStatuses"
    by (simp add: event_def knownStatuses_def)
  have u2: "messageStatus ((event ''x'' :: nat MessageData)\<lparr> messageStatus := None \<rparr>)
      \<notin> Some ` set knownStatuses"
    by (simp add: image_iff)
  have items: "map msg_file (progressItems ?s) = [Some ''a'']"
    by code_simp
  have "msg_file ` set (progressItems ?s) = set (map msg_file (progressItems ?s))"
    by simp
  then have files: "msg_file ` set (progressItems ?s) = {Some ''a''}"
    by (simp only: items) simp
  have e: "(messageStatus (fileEvent ''progress'' ''b'' :: nat MessageData) = Some ''progress'' \<or>
            messageStatus (fileEvent ''progress'' ''b'' :: nat MessageData) = Some ''done'') \<and>
           msg_file (fileEvent ''progress'' ''b'' :: nat MessageData) \<notin> msg_file ` set (progressItems ?s)"
    by (simp only: files) (simp add: fileEvent_def event_def)
  have dp: "messageStatus (fileEvent ''done'' ''a'' :: nat MessageData) = Some ''done'' \<and>
            messageStatus (fileEvent ''progress'' ''a'' :: nat MessageData) = Some ''progress'' \<and>
            msg_file (fileEvent ''progress'' ''a'' :: nat MessageData)
              = msg_file (fileEvent ''done'' ''a'' :: nat MessageData)"
    by (simp add: fileEvent_def event_def)
  have a: "msg_file (fileEvent ''done'' ''a'' :: nat MessageData) = Some ''a''"
    by (simp add: fileEvent_def event_def)
  from u1 e dp
    ignored_events_change_nothing [of "event ''later''" ?s "fileEvent ''progress'' ''b''"
      "fileEvent ''done'' ''a''" "fileEvent ''progress'' ''a''"]
  have 1: "react (WorkerMessage (event ''later'')) ?s = ?s"
    and 2: "react (WorkerMessage (fileEvent ''progress'' ''b'')) ?s = ?s"
    and 3: "msg_file (fileEvent ''done'' ''a'' :: nat MessageData) \<notin> msg_file ` set (progressItems
      (receive ?s [fileEvent ''done'' ''a'', fileEvent ''progress'' ''a'']))"
    by blast+
  from u2 ignored_events_change_nothing [of "(event ''x'')\<lparr> messageStatus := None \<rparr>" ?s]
  have 4: "react (WorkerMessage ((event ''x'')\<lparr> messageStatus := None \<rparr>)) ?s = ?s"
    by blast
  from 1 2 3 4 show ?thesis
    by (simp only: a) simp
qed

section \<open>The phase\<close>

text \<open>
  Claim C4, as amended. The phase is written by the \<^verbatim>\<open>"loading"\<close> and \<^verbatim>\<open>"ready"\<close> events
  and the last one wins: after any sequence of worker events the phase is the status of
  the latest \<^verbatim>\<open>"loading"\<close> or \<^verbatim>\<open>"ready"\<close> event of the sequence, and what it was before if
  there is none. So a \<^verbatim>\<open>"ready"\<close> event makes the phase ready, a \<^verbatim>\<open>"loading"\<close> event makes
  it loading whatever it was, and a phase that is set is never unset by worker events.
\<close>

theorem phase_follows_last_phase_event:
  "status (receive s es) =
     (if phaseEvents es = [] then status s else messageStatus (last (phaseEvents es)))
   \<and> (status s \<noteq> None \<longrightarrow> status (receive s es) \<noteq> None)"
  using status_receive [of s es] status_receive_set [of s es] by blast

text \<open>The theorem at a model that is loading, then ready, then starts a reply.\<close>

theorem phase_follows_last_phase_event_witness:
  "status (receive (receive (mounted :: nat Component) [event ''loading''])
      [event ''ready'', event ''start'']) = Some ''ready''"
proof -
  let ?s = "receive (mounted :: nat Component) [event ''loading'']"
  have p: "phaseEvents [event ''ready'', event ''start'' :: nat MessageData] = [event ''ready'']"
    by (simp add: phaseEvents_def event_def)
  have r: "messageStatus (event ''ready'' :: nat MessageData) = Some ''ready''"
    by (simp add: event_def)
  have "status ?s \<noteq> None"
    by code_simp
  with phase_follows_last_phase_event [of ?s "[event ''ready'', event ''start'']"]
  show ?thesis
    by (simp add: p r)
qed

text \<open>
  Claim C4 as stated fails: a \<^verbatim>\<open>"loading"\<close> event after a \<^verbatim>\<open>"ready"\<close> event puts the
  phase back to loading.
\<close>

theorem phase_reverts_counterexample:
  "status (receive (mounted :: nat Component) [event ''ready'', event ''loading'']) = Some ''loading''"
  by code_simp

section \<open>User actions\<close>

text \<open>
  Claim C3, as amended. With the worker in place, a click on Reset empties the transcript
  and posts the reset command; it leaves the tokens-per-second and token-count cells as
  they were.
\<close>

theorem reset_clears_transcript_only:
  assumes "worker s"
  shows "messages (react ResetClick s) = [] \<and>
         posted (react ResetClick s) = posted s @ [Reset] \<and>
         tps (react ResetClick s) = tps s \<and>
         numTokens (react ResetClick s) = numTokens s"
  using assms
  by (simp add: react_def handle_def onResetClick_def setMessages_def generateEffect_def Let_def)

text \<open>
  The theorem after one exchange with the loaded model, the state in which the Reset link
  is shown: the two turns of the transcript go, and the reset command follows the
  commands posted before.
\<close>

theorem reset_clears_transcript_only_witness:
  "messages (run readyState oneExchange)
     = [\<lparr> role = User, content = ''q'', answerIndex = None \<rparr>,
        \<lparr> role = Assistant, content = ''Hi there'', answerIndex = Some 2 \<rparr>] \<and>
   messages (react ResetClick (run readyState oneExchange)) = [] \<and>
   posted (react ResetClick (run readyState oneExchange))
     = [Check, Generate [\<lparr> role = User, content = ''q'', answerIndex = None \<rparr>], Reset] \<and>
   tps (react ResetClick (run readyState oneExchange)) = tps (run readyState oneExchange) \<and>
   numTokens (react ResetClick (run readyState oneExchange))
     = numTokens (run readyState oneExchange)"
proof -
  have w: "worker (run readyState oneExchange)"
    by code_simp
  have m: "messages (run readyState oneExchange)
     = [\<lparr> role = User, content = ''q'', answerIndex = None \<rparr>,
        \<lparr> role = Assistant, content = ''Hi there'', answerIndex = Some 2 \<rparr>]"
    by code_simp
  have p: "posted (run readyState oneExchange)
     = [Check, Generate [\<lparr> role = User, content = ''q'', answerIndex = None \<rparr>]]"
    by code_simp
  from reset_clears_transcript_only [OF w]
  have "messages (react ResetClick (run readyState oneExchange)) = []"
    and "posted (react ResetClick (run readyState oneExchange))
      = posted (run readyState oneExchange) @ [Reset]"
    and "tps (react ResetClick (run readyState oneExchange)) = tps (run readyState oneExchange)"
    and "numTokens (react ResetClick (run readyState oneExchange))
      = numTokens (run readyState oneExchange)"
    by blast+
  with m show ?thesis
    by (simp only: p) simp
qed

text \<open>
  Claim C3 as stated fails: after one exchange with the loaded model that reported 5
  tokens per second and 2 tokens, the Reset link is shown (the phase is ready, the
  transcript has turns, nothing runs), and a click on it leaves both numbers in place.
\<close>

theorem reset_keeps_metrics_counterexample:
  "status (run readyState oneExchange) = Some ''ready'' \<and>
   \<not> isRunning (run readyState oneExchange) \<and>
   tps (run readyState oneExchange) = Some 5 \<and>
   tps (react ResetClick (run readyState oneExchange)) = Some 5 \<and>
   numTokens (react ResetClick (run readyState oneExchange)) = Some 2"
  by code_simp

text \<open>
  Claim C9. \<^verbatim>\<open>onEnter(text)\<close> appends the user turn with that text, clears the
  tokens-per-second cell and sets the running flag. It has three callers. The Enter key
  and the send arrow pass the input, and only when it is not empty: with an empty input
  the key changes nothing, and a click on the send slot changes nothing when no
  generation runs and never changes the transcript. The examples are not empty. So no
  empty user turn is appended.
\<close>

theorem onEnter_appends_user_turn:
  "messages (onEnter text s) = messages s @ [\<lparr> role = User, content = text, answerIndex = None \<rparr>] \<and>
   tps (onEnter text s) = None \<and> isRunning (onEnter text s) \<and>
   (input s \<noteq> [] \<and> \<not> isRunning s \<longrightarrow>
      handle (KeyDown ''Enter'' False) s = onEnter (input s) s \<and>
      handle SendSlotClick s = onEnter (input s) s \<and>
      messages (react (KeyDown ''Enter'' False) s)
        = messages s @ [\<lparr> role = User, content = input s, answerIndex = None \<rparr>] \<and>
      messages (react SendSlotClick s)
        = messages s @ [\<lparr> role = User, content = input s, answerIndex = None \<rparr>]) \<and>
   (input s = [] \<longrightarrow> react (KeyDown key shiftKey) s = s) \<and>
   (input s = [] \<and> \<not> isRunning s \<longrightarrow> react SendSlotClick s = s) \<and>
   (input s = [] \<longrightarrow> messages (react SendSlotClick s) = messages s) \<and>
   [] \<notin> set EXAMPLES"
  by (simp add: onEnter_def setMessages_def react_def handle_def onKeyDown_def onSendSlotClick_def
      onInterrupt_def Let_def generateEffect_frame EXAMPLES_def)

text \<open>
  The theorem on the loaded model: with \<open>hi\<close> typed, the Enter key calls \<^verbatim>\<open>onEnter\<close> and
  the transcript gets the user turn \<open>hi\<close>; with nothing typed, the key and the send slot
  change nothing.
\<close>

theorem onEnter_appends_user_turn_witness:
  "handle (KeyDown ''Enter'' False) (run readyState [InputChange ''hi''])
     = onEnter ''hi'' (run readyState [InputChange ''hi'']) \<and>
   messages (react (KeyDown ''Enter'' False) (run readyState [InputChange ''hi'']))
     = [\<lparr> role = User, content = ''hi'', answerIndex = None \<rparr>] \<and>
   react (KeyDown ''Enter'' False) readyState = readyState \<and>
   react SendSlotClick readyState = readyState"
proof -
  let ?s = "run readyState [InputChange ''hi'']"
  have i: "input ?s = ''hi''" "\<not> isRunning ?s" "messages ?s = []"
    by code_simp+
  have e: "input readyState = []" "\<not> isRunning readyState"
    by code_simp+
  from i have "input ?s \<noteq> [] \<and> \<not> isRunning ?s"
    by simp
  with onEnter_appends_user_turn [of _ ?s]
  have "handle (KeyDown ''Enter'' False) ?s = onEnter (input ?s) ?s"
    and "messages (react (KeyDown ''Enter'' False) ?s)
      = messages ?s @ [\<lparr> role = User, content = input ?s, answerIndex = None \<rparr>]"
    by blast+
  then have 1: "handle (KeyDown ''Enter'' False) ?s = onEnter ''hi'' ?s"
    and 2: "messages (react (KeyDown ''Enter'' False) ?s)
      = [\<lparr> role = User, content = ''hi'', answerIndex = None \<rparr>]"
    by (simp_all only: i append_Nil)
  from e onEnter_appends_user_turn [of _ readyState "''Enter''" False]
  have 3: "react (KeyDown ''Enter'' False) readyState = readyState"
    and 4: "react SendSlotClick readyState = readyState"
    by blast+
  from 1 2 3 4 show ?thesis
    by blast
qed

section \<open>The transcript\<close>

text \<open>
  Claim C10. An \<^verbatim>\<open>"update"\<close> event on an empty transcript leaves the transcript empty.
  On a transcript with turns it replaces the last turn, whatever its role, by the turn
  with the fragment appended to its content (nothing for a missing fragment), and with
  its answer index set to the content length before the append when it had none and the
  event's state is \<open>answering\<close>; the turns before the last one stay.
\<close>

theorem update_appends_to_last_turn:
  assumes "messageStatus e = Some ''update''"
  shows "(messages s = [] \<longrightarrow> messages (react (WorkerMessage e) s) = []) \<and>
         (messages s \<noteq> [] \<longrightarrow>
            messages (react (WorkerMessage e) s) =
              butlast (messages s) @
              [(last (messages s))\<lparr>
                 content := content (last (messages s)) @
                            (case msg_output e of None \<Rightarrow> [] | Some t \<Rightarrow> t),
                 answerIndex := (if answerIndex (last (messages s)) = None \<and>
                                    msg_state e = Some ''answering''
                                 then Some (length (content (last (messages s))))
                                 else answerIndex (last (messages s))) \<rparr>])"
proof (cases "messages s" rule: rev_cases)
  case Nil
  with assms show ?thesis by (simp add: messages_react_worker appendToken_Nil)
next
  case (snoc xs x)
  with assms show ?thesis by (simp add: messages_react_worker appendToken_snoc)
qed

text \<open>
  The theorem at an update that arrives before any \<^verbatim>\<open>"start"\<close>: after the question \<open>q\<close> it
  lands in the user turn and sets its answer index; on the empty transcript it does
  nothing.
\<close>

theorem update_appends_to_last_turn_witness:
  "messages (react (WorkerMessage (updateEvent ''x'' ''answering'')) (run (mounted :: nat Component) [Enter ''q'']))
     = [\<lparr> role = User, content = ''qx'', answerIndex = Some 1 \<rparr>]
   \<and> messages (react (WorkerMessage (updateEvent ''x'' ''answering'')) (mounted :: nat Component)) = []"
proof -
  have h: "messageStatus (updateEvent ''x'' ''answering'' :: nat MessageData) = Some ''update''"
    by (simp add: updateEvent_def event_def)
  have m: "messages (run (mounted :: nat Component) [Enter ''q''])
      = [\<lparr> role = User, content = ''q'', answerIndex = None \<rparr>]"
    by code_simp
  have m0: "messages (mounted :: nat Component) = []"
    by (simp add: mounted_def)
  have o: "msg_output (updateEvent ''x'' ''answering'' :: nat MessageData) = Some ''x''"
     "msg_state (updateEvent ''x'' ''answering'' :: nat MessageData) = Some ''answering''"
    by (simp_all add: updateEvent_def event_def)
  show ?thesis
    using update_appends_to_last_turn [OF h, of "run (mounted :: nat Component) [Enter ''q'']", unfolded m o]
      update_appends_to_last_turn [OF h, of "mounted :: nat Component", unfolded m0]
    by simp
qed

text \<open>
  Claim C1. The worker sends the events of a reply in the order \<^verbatim>\<open>"start"\<close>, updates,
  \<^verbatim>\<open>"complete"\<close>. Take any sequence of worker events in which the first \<^verbatim>\<open>"update"\<close> event
  with state \<open>answering\<close> is at index \<open>k\<close> and a \<^verbatim>\<open>"start"\<close> event comes before it. When
  event \<open>k\<close> arrives the transcript has a last turn, an assistant turn; after the whole
  sequence the answer index of that turn is the length its content had just before event
  \<open>k\<close>, whatever events follow \<open>k\<close>; and when no \<^verbatim>\<open>"start"\<close> event follows \<open>k\<close> that turn
  is still the last turn. This holds from every state of the component.
\<close>

theorem answerIndex_set_at_first_answering_update:
  assumes k: "k < length es"
    and a: "answering (es ! k)"
    and first: "\<forall>j<k. \<not> answering (es ! j)"
    and started: "\<exists>j<k. messageStatus (es ! j) = Some ''start''"
  shows "messages (receive s (take k es)) \<noteq> [] \<and>
         role (last (messages (receive s (take k es)))) = Assistant \<and>
         length (messages (receive s (take k es))) \<le> length (messages (receive s es)) \<and>
         answerIndex (messages (receive s es) ! (length (messages (receive s (take k es))) - 1))
           = Some (length (content (last (messages (receive s (take k es)))))) \<and>
         ((\<forall>j. k < j \<and> j < length es \<longrightarrow> messageStatus (es ! j) \<noteq> Some ''start'') \<longrightarrow>
            answerIndex (last (messages (receive s es)))
              = Some (length (content (last (messages (receive s (take k es)))))))"
proof -
  let ?before = "receive s (take k es)"
  let ?at = "react (WorkerMessage (es ! k)) ?before"
  let ?i = "length (messages ?before) - 1"
  let ?v = "length (content (last (messages ?before)))"
  have split: "es = take k es @ es ! k # drop (Suc k) es"
    using k by (rule id_take_nth_drop)
  have after: "receive s es = receive ?at (drop (Suc k) es)"
    by (subst split) (simp add: receive_append receive_Cons)
  have "\<forall>e\<in>set (take k es). \<not> answering e"
    using first k by (auto simp add: in_set_conv_nth)
  moreover have "\<exists>e\<in>set (take k es). messageStatus e = Some ''start''"
  proof -
    from started obtain j where j: "j < k" "messageStatus (es ! j) = Some ''start''" by blast
    with k have "j < length (take k es)" by simp
    then have "take k es ! j \<in> set (take k es)" by (rule nth_mem)
    moreover from j have "messageStatus (take k es ! j) = Some ''start''" by simp
    ultimately show ?thesis by blast
  qed
  ultimately have t: "thinkingTurn (messages ?before)"
    by (intro thinkingTurn_receive) simp_all
  then have ne: "messages ?before \<noteq> []" and r: "role (last (messages ?before)) = Assistant"
    by (simp_all add: thinkingTurn_def)
  have at: "answerIndex (messages ?at ! ?i) = Some ?v"
    using a t by (rule answering_step)
  have len_at: "length (messages ?at) = length (messages ?before)"
    using a by (simp add: length_messages_react answering_def)
  have i: "?i < length (messages ?at)"
    using ne len_at by simp
  have kept: "answerIndex (messages (receive s es) ! ?i) = Some ?v"
    unfolding after using i at by (rule answerIndex_kept)
  have le: "length (messages ?before) \<le> length (messages (receive s es))"
    unfolding after using length_messages_receive_le [of ?at "drop (Suc k) es"] len_at by simp
  have lastp: "answerIndex (last (messages (receive s es))) = Some ?v"
    if ns: "\<forall>j. k < j \<and> j < length es \<longrightarrow> messageStatus (es ! j) \<noteq> Some ''start''"
  proof -
    have "\<forall>e\<in>set (drop (Suc k) es). messageStatus e \<noteq> Some ''start''"
    proof
      fix e assume "e \<in> set (drop (Suc k) es)"
      then obtain j where "j < length (drop (Suc k) es)" "e = drop (Suc k) es ! j"
        by (auto simp add: in_set_conv_nth)
      then have "e = es ! (Suc k + j)" "Suc k + j < length es" by simp_all
      with ns show "messageStatus e \<noteq> Some ''start''" by simp
    qed
    then have len: "length (messages (receive s es)) = length (messages ?before)"
      unfolding after using len_at by (simp add: length_messages_receive_no_start)
    with ne have "messages (receive s es) \<noteq> []"
      by (metis length_0_conv)
    then have "last (messages (receive s es))
        = messages (receive s es) ! (length (messages (receive s es)) - 1)"
      by (rule last_conv_nth)
    then have "last (messages (receive s es)) = messages (receive s es) ! ?i"
      by (simp only: len)
    with kept show ?thesis by simp
  qed
  from ne r le kept lastp show ?thesis by blast
qed

text \<open>
  The theorem at the reply \<open>start, update(Hi, thinking), update( there, answering),
  complete\<close> to the question \<open>q\<close> put to the loaded model, with \<open>k = 2\<close>: the reply's turn has the content
  \<open>Hi there\<close> and the answer index 2, and the component is not running afterwards.
\<close>

theorem answerIndex_set_at_first_answering_update_witness:
  "answerIndex (last (messages (receive (run readyState [Enter ''q'']) exampleReply))) = Some 2 \<and>
   content (last (messages (receive (run readyState [Enter ''q'']) exampleReply))) = ''Hi there'' \<and>
   \<not> isRunning (receive (run readyState [Enter ''q'']) exampleReply)"
proof -
  let ?s = "run readyState [Enter ''q'']"
  have len: "length exampleReply = 4"
    by (simp add: exampleReply_def)
  have k: "2 < length exampleReply"
    by (simp add: len)
  have a: "answering (exampleReply ! 2)"
    by (simp add: exampleReply_def answering_def updateEvent_def event_def)
  have first: "\<forall>j<2. \<not> answering (exampleReply ! j)"
  proof (intro allI impI)
    fix j :: nat assume "j < 2"
    then have "j = 0 \<or> j = 1" by arith
    then show "\<not> answering (exampleReply ! j)"
      by (auto simp add: exampleReply_def answering_def updateEvent_def event_def)
  qed
  have started: "\<exists>j<2. messageStatus (exampleReply ! j) = Some ''start''"
    by (intro exI [of _ 0]) (simp add: exampleReply_def event_def)
  have no_start: "\<forall>j. 2 < j \<and> j < length exampleReply \<longrightarrow>
      messageStatus (exampleReply ! j) \<noteq> Some ''start''"
  proof (intro allI impI)
    fix j :: nat assume "2 < j \<and> j < length exampleReply"
    then have "j = 3" by (simp add: len)
    then show "messageStatus (exampleReply ! j) \<noteq> Some ''start''"
      by (simp add: exampleReply_def event_def)
  qed
  have before: "length (content (last (messages (receive ?s (take 2 exampleReply))))) = 2"
    by code_simp
  have rest: "content (last (messages (receive ?s exampleReply))) = ''Hi there''"
    "\<not> isRunning (receive ?s exampleReply)"
    by code_simp+
  from answerIndex_set_at_first_answering_update [OF k a first started, of ?s] no_start
  have "answerIndex (last (messages (receive ?s exampleReply)))
      = Some (length (content (last (messages (receive ?s (take 2 exampleReply))))))"
    by blast
  with before rest show ?thesis
    by simp
qed

section \<open>The generate command\<close>

text \<open>
  Claim C5. When the effect runs it posts \<^verbatim>\<open>"generate"\<close> exactly when the worker is in
  place, a user turn exists and the last turn is a user turn, and the command carries the
  whole turn sequence. The worker answers a command with \<^verbatim>\<open>"start"\<close>, then updates, then
  \<^verbatim>\<open>"complete"\<close>: after \<^verbatim>\<open>onEnter\<close> has appended a user turn, with the \<^verbatim>\<open>"start"\<close> as the
  first of these events to arrive, one \<^verbatim>\<open>"generate"\<close> is posted for the turn and no other,
  whatever events follow. Once an assistant turn is last, no worker event posts anything.
  While a generation runs, the Enter key does nothing and a click on the send slot posts
  an interrupt and leaves the transcript.
\<close>

theorem generate_posted_for_last_user_turn:
  "posted (generateEffect s) =
     (if worker s \<and> (\<exists>m\<in>set (messages s). role m = User) \<and> role (last (messages s)) = User
      then posted s @ [Generate (messages s)] else posted s) \<and>
   (worker s \<and>
    (\<forall>e\<in>set quiet. messageStatus e \<noteq> Some ''start'' \<and> messageStatus e \<noteq> Some ''update'' \<and>
        messageStatus e \<noteq> Some ''complete'') \<and>
    messageStatus st = Some ''start'' \<longrightarrow>
      posted (receive (react (Enter text) s) (quiet @ st # es))
        = posted s @ [Generate (messages s @ [\<lparr> role = User, content = text, answerIndex = None \<rparr>])]) \<and>
   (messages s \<noteq> [] \<and> role (last (messages s)) = Assistant \<longrightarrow>
      posted (receive s es) = posted s) \<and>
   (isRunning s \<longrightarrow>
      react (KeyDown key shiftKey) s = s \<and>
      posted (react SendSlotClick s) = posted s @ (if worker s then [Interrupt] else []) \<and>
      messages (react SendSlotClick s) = messages s)"
  using generateEffect_posted [of s] one_generate_per_cycle [of s quiet st "text" es]
    no_generate_receive [of s es] running_blocks_submit(1) [of s key shiftKey] running_blocks_submit(2,3) [of s]
  by blast

text \<open>
  The theorem at the question \<open>q\<close> put to the loaded model: one command for the whole
  cycle, with an event of an unknown status in between; and, once the reply has begun,
  nothing more is posted and the Enter key is dead.
\<close>

theorem generate_posted_for_last_user_turn_witness:
  "posted (receive (react (Enter ''q'') readyState)
      ([event ''later''] @ event ''start'' # [updateEvent ''Hi'' ''thinking'', event ''complete'']))
     = [Check, Generate [\<lparr> role = User, content = ''q'', answerIndex = None \<rparr>]] \<and>
   posted (receive (run readyState [Enter ''q'', WorkerMessage (event ''start'')])
      [updateEvent ''Hi'' ''thinking'', event ''complete''])
     = [Check, Generate [\<lparr> role = User, content = ''q'', answerIndex = None \<rparr>]] \<and>
   react (KeyDown ''Enter'' False) (run readyState [Enter ''q'', WorkerMessage (event ''start'')])
     = run readyState [Enter ''q'', WorkerMessage (event ''start'')]"
proof -
  let ?s = "run readyState [Enter ''q'', WorkerMessage (event ''start'')]"
  have m: "worker readyState" "posted readyState = [Check]" "messages readyState = []"
    by code_simp+
  have q: "\<forall>e\<in>set [event ''later'' :: nat MessageData].
      messageStatus e \<noteq> Some ''start'' \<and> messageStatus e \<noteq> Some ''update'' \<and>
      messageStatus e \<noteq> Some ''complete''"
    by (simp add: event_def)
  have st: "messageStatus (event ''start'' :: nat MessageData) = Some ''start''"
    by (simp add: event_def)
  from m(1) q st
    generate_posted_for_last_user_turn [of readyState "[event ''later'']"
      "event ''start''" "''q''" "[updateEvent ''Hi'' ''thinking'', event ''complete'']"]
  have 1: "posted (receive (react (Enter ''q'') readyState)
      ([event ''later''] @ event ''start'' # [updateEvent ''Hi'' ''thinking'', event ''complete'']))
     = posted readyState @
       [Generate (messages readyState @
          [\<lparr> role = User, content = ''q'', answerIndex = None \<rparr>])]"
    by blast
  have a: "messages ?s \<noteq> [] \<and> role (last (messages ?s)) = Assistant"
    by code_simp
  have r: "isRunning ?s"
    by code_simp
  have p: "posted ?s = [Check, Generate [\<lparr> role = User, content = ''q'', answerIndex = None \<rparr>]]"
    by code_simp
  from a r
    generate_posted_for_last_user_turn [of ?s _ _ _ "[updateEvent ''Hi'' ''thinking'', event ''complete'']"
      "''Enter''" False]
  have 2: "posted (receive ?s [updateEvent ''Hi'' ''thinking'', event ''complete'']) = posted ?s"
    and 3: "react (KeyDown ''Enter'' False) ?s = ?s"
    by blast+
  show ?thesis
    using 1 2 3 by (simp only: m p) simp
qed

section \<open>Copy on write\<close>

text \<open>
  Claim C8. On a store whose array refers to allocated objects only, the \<^verbatim>\<open>"update"\<close>
  updater changes no object that exists: the old heap is a prefix of the new one. The
  new array shows what the updater on values computes. When the transcript has turns,
  the new array has the references of the old one in all places but the last, and in the
  last place the address of an object allocated by this update, which the old array does
  not refer to. The other updaters (a reply begins, the user enters a text, reset) also
  change no existing object, and the two that append keep every reference of the old
  array.
\<close>

theorem update_is_copy_on_write:
  assumes "wellFormed t"
  shows "take (length (heap t)) (heap (updateStore out st t)) = heap t \<and>
         wellFormed (updateStore out st t) \<and>
         view (updateStore out st t) = appendToken out st (view t) \<and>
         (turns t \<noteq> [] \<longrightarrow>
            butlast (turns (updateStore out st t)) = butlast (turns t) \<and>
            last (turns (updateStore out st t)) = length (heap t) \<and>
            length (heap t) \<notin> set (turns t)) \<and>
         take (length (heap t)) (heap (startStore t)) = heap t \<and>
         take (length (turns t)) (turns (startStore t)) = turns t \<and>
         view (startStore t) = view t @ [\<lparr> role = Assistant, content = [], answerIndex = None \<rparr>] \<and>
         take (length (heap t)) (heap (enterStore message t)) = heap t \<and>
         take (length (turns t)) (turns (enterStore message t)) = turns t \<and>
         view (enterStore message t) = view t @ [\<lparr> role = User, content = message, answerIndex = None \<rparr>] \<and>
         heap (resetStore t) = heap t \<and> view (resetStore t) = []"
proof -
  have "take (length (heap t)) (heap (updateStore out st t)) = heap t"
    by (cases "turns t = []") (simp_all add: updateStore_empty updateStore_heap)
  moreover have "turns t \<noteq> [] \<longrightarrow>
            butlast (turns (updateStore out st t)) = butlast (turns t) \<and>
            last (turns (updateStore out st t)) = length (heap t)"
    by (simp add: updateStore_turns)
  ultimately show ?thesis
    using updateStore_wellFormed [OF assms, of out st] updateStore_view [OF assms, of out st]
      next_address_unused [OF assms] appendStores_view(1,2) [OF assms]
    by (simp add: startStore_def enterStore_def resetStore_def view_def)
qed

text \<open>
  The theorem at the first fragment of a reply to the question \<open>q\<close>: the two objects of
  the store stay, the user turn is shared, and the reply's turn is a third object.
\<close>

theorem update_is_copy_on_write_witness:
  "take 2 (heap (updateStore (Some ''Hi'') (Some ''answering'') exampleStore))
     = [\<lparr> role = User, content = ''q'', answerIndex = None \<rparr>,
        \<lparr> role = Assistant, content = [], answerIndex = None \<rparr>] \<and>
   butlast (turns (updateStore (Some ''Hi'') (Some ''answering'') exampleStore)) = [0] \<and>
   last (turns (updateStore (Some ''Hi'') (Some ''answering'') exampleStore)) = 2 \<and>
   view (updateStore (Some ''Hi'') (Some ''answering'') exampleStore)
     = [\<lparr> role = User, content = ''q'', answerIndex = None \<rparr>,
        \<lparr> role = Assistant, content = ''Hi'', answerIndex = Some 0 \<rparr>]"
proof -
  have h: "heap exampleStore = [\<lparr> role = User, content = ''q'', answerIndex = None \<rparr>,
        \<lparr> role = Assistant, content = [], answerIndex = None \<rparr>]"
    and t: "turns exampleStore = [0, 1]"
    by (simp_all add: exampleStore_def startStore_def enterStore_def)
  have w: "wellFormed exampleStore"
    by (simp add: wellFormed_def h t)
  have v: "view exampleStore = [\<lparr> role = User, content = ''q'', answerIndex = None \<rparr>,
        \<lparr> role = Assistant, content = [], answerIndex = None \<rparr>]"
    by (simp add: view_def h t)
  have a: "appendToken (Some ''Hi'') (Some ''answering'')
      [\<lparr> role = User, content = ''q'', answerIndex = None \<rparr>,
       \<lparr> role = Assistant, content = [], answerIndex = None \<rparr>]
     = [\<lparr> role = User, content = ''q'', answerIndex = None \<rparr>,
        \<lparr> role = Assistant, content = ''Hi'', answerIndex = Some 0 \<rparr>]"
    by (simp add: appendToken_def Let_def)
  let ?u = "updateStore (Some ''Hi'') (Some ''answering'') exampleStore"
  have ne: "turns exampleStore \<noteq> []"
    by (simp add: t)
  from ne update_is_copy_on_write [OF w, of "Some ''Hi''" "Some ''answering''" "[]"]
  have 1: "take (length (heap exampleStore)) (heap ?u) = heap exampleStore"
    and 2: "butlast (turns ?u) = butlast (turns exampleStore)"
    and 3: "last (turns ?u) = length (heap exampleStore)"
    and 4: "view ?u = appendToken (Some ''Hi'') (Some ''answering'') (view exampleStore)"
    by blast+
  have l: "length (heap exampleStore) = 2"
    by (simp add: h)
  from 1 have "take 2 (heap ?u) = heap exampleStore"
    by (simp only: l)
  moreover from 2 have "butlast (turns ?u) = [0]"
    by (simp add: t)
  moreover from 3 have "last (turns ?u) = 2"
    by (simp only: l)
  moreover from 4 have "view ?u = [\<lparr> role = User, content = ''q'', answerIndex = None \<rparr>,
        \<lparr> role = Assistant, content = ''Hi'', answerIndex = Some 0 \<rparr>]"
    by (simp only: v a)
  ultimately show ?thesis
    by (simp only: h simp_thms)
qed

section \<open>Sizes\<close>



end
